theory Spec2Isabelle
  imports Complex_Main
begin

section \<open>The circular threat of the traveling-uav planner (geometry/circle.py)\<close>

text \<open>
  Python floats are read as real numbers: \<open>+\<close>, \<open>*\<close>, \<open>abs\<close>, \<open>math.pi\<close>, the square root and
  the trigonometric functions are the exact ones, so rounding, infinities and NaN are outside
  this development. Exceptions are values: a fallible method returns \<open>error + 'a\<close>.
\<close>

subsection \<open>Points and segments\<close>

text \<open>
  \<open>Coord\<close> and \<open>Segment\<close> are defined in geometry/coord.py and geometry/segment.py, outside
  geometry/circle.py; their operations follow section 3 of the specification.
\<close>

datatype Coord = Coord (x: real) (y: real)

text \<open>Modelled from the spec: \<open>Coord.distance_to\<close>, the Euclidean distance to another point.\<close>

definition distance_to :: "Coord \<Rightarrow> Coord \<Rightarrow> real" where
  "distance_to p q = sqrt ((x p - x q)\<^sup>2 + (y p - y q)\<^sup>2)"

text \<open>
  Modelled from the spec: \<open>Coord.shifted\<close>, a new point shifted by a signed distance along a
  given angle (polar translation).
\<close>

definition shifted :: "Coord \<Rightarrow> real \<Rightarrow> real \<Rightarrow> Coord" where
  "shifted p distance angle = Coord (x p + distance * cos angle) (y p + distance * sin angle)"

text \<open>\<open>math.atan2 v u\<close> of the Python standard library: the angle in \<open>(-\<pi>, \<pi>]\<close> of the vector \<open>(u, v)\<close>.\<close>

definition atan2 :: "real \<Rightarrow> real \<Rightarrow> real" where
  "atan2 v u =
     (if 0 < u then arctan (v / u)
      else if u < 0 then (if 0 \<le> v then arctan (v / u) + pi else arctan (v / u) - pi)
      else if 0 < v then pi / 2
      else if v < 0 then - (pi / 2)
      else 0)"

datatype Segment = Segment (seg_a: Coord) (seg_b: Coord)

text \<open>Modelled from the spec: \<open>Segment.length\<close>, \<open>length = dist(a,b)\<close>.\<close>

definition segment_length :: "Segment \<Rightarrow> real" where
  "segment_length s = distance_to (seg_a s) (seg_b s)"

text \<open>Modelled from the spec: \<open>Segment.angle\<close>, \<open>angle = atan2(b.y-a.y, b.x-a.x)\<close>.\<close>

definition segment_angle :: "Segment \<Rightarrow> real" where
  "segment_angle s = atan2 (y (seg_b s) - y (seg_a s)) (x (seg_b s) - x (seg_a s))"

subsection \<open>The circle\<close>

text \<open>
  A circle carries its center and radius. The two shapely polygons built by the constructor
  and the lazily cached boundary list are functions of these two fields and of the shapely
  library; they are not fields of the model.
\<close>

datatype Circle = Circle (center: Coord) (radius: real)

definition BUFFER_RESOLUTION :: real where
  "BUFFER_RESOLUTION = 40"

definition ANGLE_STEP :: real where
  "ANGLE_STEP = pi / BUFFER_RESOLUTION"

definition EPSILON :: real where
  "EPSILON = 1"

definition INF_const :: real where
  "INF_const = 1000"

text \<open>
  The exceptions of the methods below: \<open>ValueError\<close> is raised by \<open>min\<close> on an empty
  sequence, \<open>IndexError\<close> by indexing a sequence that is too short. \<open>DegeneratePartition\<close> is
  the typed failure that the specification names for the partition; no path of circle.py
  raises it.
\<close>

datatype error = ValueError | IndexError | DegeneratePartition

text \<open>\<open>Circle.contains\<close>.\<close>

definition contains :: "Circle \<Rightarrow> Coord \<Rightarrow> bool" where
  "contains c coord \<longleftrightarrow> distance_to coord (center c) \<le> radius c"

text \<open>
  Python's \<open>min(seq, key=...)\<close>: the first element whose key is the least; \<open>ValueError\<close> on an
  empty sequence.
\<close>

fun min_by_key :: "('a \<Rightarrow> real) \<Rightarrow> 'a list \<Rightarrow> error + 'a" where
  "min_by_key key [] = Inl ValueError"
| "min_by_key key (p # ps) = Inr (foldl (\<lambda>best q. if key q < key best then q else best) p ps)"

text \<open>
  \<open>Circle.calculate_exit_point\<close>. The helper \<open>calculate_points_in_distance_on_circle\<close> is
  defined in geometry/geometric.py, outside geometry/circle.py; it is the parameter
  \<open>points_in_distance\<close>, called with the center, the radius, the start point and the chord.
\<close>

definition calculate_exit_point ::
  "(Coord \<Rightarrow> real \<Rightarrow> Coord \<Rightarrow> real \<Rightarrow> Coord list) \<Rightarrow> Circle \<Rightarrow> Coord \<Rightarrow> real \<Rightarrow> Coord
     \<Rightarrow> error + Coord" where
  "calculate_exit_point points_in_distance c start chord target =
     (if chord \<ge> radius c * 2
      then Inr (shifted start (2 * radius c) (segment_angle (Segment start (center c))))
      else min_by_key (\<lambda>p. distance_to p target)
             (points_in_distance (center c) (radius c) start chord))"

text \<open>
  \<open>Circle.arc_length_between\<close>. The helper \<open>calculate_directional_angle_of_line\<close> is defined
  in geometry/geometric.py, outside geometry/circle.py, and the specification does not fix
  its range, so it is the parameter \<open>dir_angle\<close>: \<open>dir_angle s e\<close> is the directional angle of
  the line from \<open>s\<close> to \<open>e\<close>.
\<close>

definition arc_length_between :: "(Coord \<Rightarrow> Coord \<Rightarrow> real) \<Rightarrow> Circle \<Rightarrow> Coord \<Rightarrow> Coord \<Rightarrow> real" where
  "arc_length_between dir_angle c start end' =
     (let angle1 = dir_angle (center c) start;
          angle2 = dir_angle (center c) end'
      in \<bar>angle1 - angle2\<bar> * radius c)"

text \<open>
  Modelled from the spec: \<open>calculate_directional_angle_of_line\<close> as the \<open>atan2\<close> angle of the
  segment from start to end (the specification's \<open>Segment.angle\<close>). It instantiates the
  parameter \<open>dir_angle\<close> where a property is evaluated at concrete points.
\<close>

definition atan2_angle :: "Coord \<Rightarrow> Coord \<Rightarrow> real" where
  "atan2_angle s e = segment_angle (Segment s e)"

text \<open>
  The two \<open>while\<close> loops of \<open>Circle.get_boundary_between\<close>: while \<open>angle < limit\<close>, append the
  point of the outer circle at \<open>angle\<close> and advance \<open>angle\<close> by \<open>ANGLE_STEP\<close>.
\<close>

function sample_loop :: "Circle \<Rightarrow> real \<Rightarrow> real \<Rightarrow> Coord list \<Rightarrow> Coord list" where
  "sample_loop c angle limit boundary =
     (if angle < limit
      then sample_loop c (angle + ANGLE_STEP) limit
             (boundary @ [shifted (center c) (radius c + EPSILON) angle])
      else boundary)"
  by pat_completeness auto
termination
proof (relation "measure (\<lambda>(c, angle, limit, boundary). nat \<lceil>(limit - angle) / ANGLE_STEP\<rceil>)")
  show "wf (measure (\<lambda>(c, angle, limit, boundary). nat \<lceil>(limit - angle) / ANGLE_STEP\<rceil>))"
    by simp
next
  fix c :: Circle and angle limit :: real and boundary :: "Coord list"
  assume lt: "angle < limit"
  have step: "0 < ANGLE_STEP"
    by (simp add: ANGLE_STEP_def BUFFER_RESOLUTION_def)
  have eq: "(limit - (angle + ANGLE_STEP)) / ANGLE_STEP = (limit - angle) / ANGLE_STEP - 1"
    using step by (simp add: field_simps)
  have pos: "0 < (limit - angle) / ANGLE_STEP"
    using lt step by simp
  then have "0 < \<lceil>(limit - angle) / ANGLE_STEP\<rceil>"
    by simp
  then have "nat \<lceil>(limit - (angle + ANGLE_STEP)) / ANGLE_STEP\<rceil> < nat \<lceil>(limit - angle) / ANGLE_STEP\<rceil>"
    unfolding eq by simp
  then show "((c, angle + ANGLE_STEP, limit, boundary @ [shifted (center c) (radius c + EPSILON) angle]),
              (c, angle, limit, boundary))
             \<in> measure (\<lambda>(c, angle, limit, boundary). nat \<lceil>(limit - angle) / ANGLE_STEP\<rceil>)"
    by simp
qed

declare sample_loop.simps [simp del]

text \<open>
  \<open>Circle.get_boundary_between\<close>. \<open>boundary[0]\<close> raises \<open>IndexError\<close> on an empty list;
  \<open>boundary[::-1]\<close> is the reversed list.
\<close>

definition get_boundary_between ::
  "(Coord \<Rightarrow> Coord \<Rightarrow> real) \<Rightarrow> Circle \<Rightarrow> Coord \<Rightarrow> Coord \<Rightarrow> error + Coord list" where
  "get_boundary_between dir_angle c start end' =
     (let angle1 = dir_angle (center c) start;
          angle2 = dir_angle (center c) end';
          small_angle = min angle1 angle2;
          great_angle = max angle1 angle2;
          boundary =
            (if great_angle - small_angle \<le> pi
             then sample_loop c small_angle great_angle []
                    @ [shifted (center c) (radius c + EPSILON) great_angle]
             else sample_loop c great_angle (small_angle + 2 * pi) []
                    @ [shifted (center c) (radius c + EPSILON) small_angle])
      in case boundary of
           [] \<Rightarrow> Inl IndexError
         | first # _ \<Rightarrow>
             Inr (if \<not> distance_to first start < distance_to first end'
                  then rev boundary else boundary))"

text \<open>
  \<open>Circle.calculate_partition_between_circles\<close>, first half (its comment: find inf partition): the
  segment of length \<open>2 * INF\<close> through the point between the two circles, perpendicular to the
  line of the centers.
\<close>

definition inf_partition :: "Circle \<Rightarrow> Circle \<Rightarrow> Segment" where
  "inf_partition circle1 circle2 =
     (let center1 = center circle1; center2 = center circle2;
          radius1 = radius circle1; radius2 = radius circle2;
          centers_segment = Segment center1 center2;
          centers_distance = segment_length centers_segment;
          centers_angle = segment_angle centers_segment;
          point_between = shifted center1 ((radius1 + (centers_distance - radius2)) / 2) centers_angle
      in Segment (shifted point_between INF_const (centers_angle + 0.5 * pi))
                 (shifted point_between INF_const (centers_angle - 0.5 * pi)))"

text \<open>
  \<open>Circle.calculate_partition_between_circles\<close>, second half. The geometry is computed by the
  shapely library, which is not part of the repository; its two answers are parameters:
  \<open>polygon_boundary c\<close> stands for \<open>c.to_shapely.boundary.coords\<close>, and
  \<open>hull_intersection points segment\<close> for the coordinate sequence
  \<open>Polygon(points).convex_hull.intersection(segment.to_shapely).coords\<close>.
  \<open>Polygon(all_shapely_points)\<close> raises \<open>ValueError\<close> when it is given fewer than three
  coordinates, as it is when \<open>all_circles\<close> is empty and only source and target are listed.
  \<open>intersection_points[0]\<close> and \<open>intersection_points[1]\<close> raise \<open>IndexError\<close> when the sequence
  has fewer than two coordinates. Other exceptions raised inside shapely are not modelled.
\<close>

definition calculate_partition_between_circles ::
  "(Circle \<Rightarrow> Coord list) \<Rightarrow> (Coord list \<Rightarrow> Segment \<Rightarrow> Coord list) \<Rightarrow>
   Circle \<Rightarrow> Circle \<Rightarrow> Coord \<Rightarrow> Coord \<Rightarrow> Circle list \<Rightarrow> error + Segment" where
  "calculate_partition_between_circles polygon_boundary hull_intersection
       circle1 circle2 source target all_circles =
     (let all_shapely_points = [source, target] @ concat (map polygon_boundary all_circles)
      in if length all_shapely_points < 3 then Inl ValueError
         else
           (let intersection_points =
                  hull_intersection all_shapely_points (inf_partition circle1 circle2)
            in case intersection_points of
                 p0 # p1 # _ \<Rightarrow> Inr (Segment p0 p1)
               | _ \<Rightarrow> Inl IndexError))"

text \<open>
  The geometry in which the partition is specified. The points of a segment; the convex hull
  of a list of points, as the set of their convex combinations; and the unbounded line through
  the point between the two circles, perpendicular to the line of the centers (the line of
  which \<open>inf_partition\<close> is a part).
\<close>

definition segment_points :: "Segment \<Rightarrow> Coord set" where
  "segment_points s =
     {p. \<exists>t. 0 \<le> t \<and> t \<le> 1
           \<and> p = Coord (x (seg_a s) + t * (x (seg_b s) - x (seg_a s)))
                       (y (seg_a s) + t * (y (seg_b s) - y (seg_a s)))}"

definition convex_hull :: "Coord list \<Rightarrow> Coord set" where
  "convex_hull ps =
     {p. \<exists>ws. length ws = length ps \<and> (\<forall>w\<in>set ws. 0 \<le> w) \<and> sum_list ws = 1
            \<and> x p = sum_list (map2 (\<lambda>w q. w * x q) ws ps)
            \<and> y p = sum_list (map2 (\<lambda>w q. w * y q) ws ps)}"

definition perpendicular_line :: "Circle \<Rightarrow> Circle \<Rightarrow> Coord set" where
  "perpendicular_line circle1 circle2 =
     (let center1 = center circle1; center2 = center circle2;
          radius1 = radius circle1; radius2 = radius circle2;
          centers_segment = Segment center1 center2;
          centers_distance = segment_length centers_segment;
          centers_angle = segment_angle centers_segment;
          point_between = shifted center1 ((radius1 + (centers_distance - radius2)) / 2) centers_angle
      in {p. \<exists>t. p = shifted point_between t (centers_angle + 0.5 * pi)})"

subsection \<open>The specification's boundary sampling\<close>

text \<open>
  Section 4.2 of the specification, \<open>boundaryBetween\<close>: an angular interval \<open>[a, b]\<close> is sampled
  forward at the fixed step \<open>\<pi> / R\<close> with \<open>R = 40\<close>: the angles \<open>a, a + \<pi>/R, a + 2\<pi>/R, \<dots>\<close> below
  \<open>b\<close>, then \<open>b\<close> itself.
\<close>

definition spec_sample_angles :: "real \<Rightarrow> real \<Rightarrow> real list" where
  "spec_sample_angles a b =
     map (\<lambda>k. a + real k * (pi / 40)) [0..<nat \<lceil>(b - a) / (pi / 40)\<rceil>] @ [b]"

text \<open>
  The short arc of the specification: with \<open>lo = min(\<theta>1,\<theta>2)\<close> and \<open>hi = max(\<theta>1,\<theta>2)\<close>, the direct
  interval \<open>[lo, hi]\<close> if \<open>hi - lo \<le> \<pi>\<close>, otherwise the complementary interval \<open>[hi, lo + 2\<pi>]\<close>.
\<close>

definition spec_short_arc_angles :: "(Coord \<Rightarrow> Coord \<Rightarrow> real) \<Rightarrow> Circle \<Rightarrow> Coord \<Rightarrow> Coord \<Rightarrow> real list" where
  "spec_short_arc_angles dir_angle c start end' =
     (let theta1 = dir_angle (center c) start;
          theta2 = dir_angle (center c) end';
          lo = min theta1 theta2;
          hi = max theta1 theta2
      in if hi - lo \<le> pi then spec_sample_angles lo hi
         else spec_sample_angles hi (lo + 2 * pi))"

text \<open>The sampled points lie on the outer circle of radius \<open>radius + \<epsilon>\<close>, \<open>\<epsilon> = 1\<close>.\<close>

definition spec_short_arc :: "(Coord \<Rightarrow> Coord \<Rightarrow> real) \<Rightarrow> Circle \<Rightarrow> Coord \<Rightarrow> Coord \<Rightarrow> Coord list" where
  "spec_short_arc dir_angle c start end' =
     map (shifted (center c) (radius c + 1)) (spec_short_arc_angles dir_angle c start end')"

text \<open>The number of iterations of \<open>sample_loop\<close> from \<open>a\<close> up to the limit \<open>b\<close>.\<close>

definition steps_between :: "real \<Rightarrow> real \<Rightarrow> nat" where
  "steps_between a b = nat \<lceil>(b - a) / ANGLE_STEP\<rceil>"

section \<open>Properties\<close>

subsection \<open>The sampling loop in closed form\<close>

lemma ANGLE_STEP_pos: "0 < ANGLE_STEP"
  by (simp add: ANGLE_STEP_def BUFFER_RESOLUTION_def)

lemma ANGLE_STEP_eq: "ANGLE_STEP = pi / 40"
  by (simp add: ANGLE_STEP_def BUFFER_RESOLUTION_def)

lemma steps_between_0: "\<not> a < b \<Longrightarrow> steps_between a b = 0"
  using ANGLE_STEP_pos by (simp add: steps_between_def divide_nonpos_pos)

lemma steps_between_Suc: "a < b \<Longrightarrow> steps_between a b = Suc (steps_between (a + ANGLE_STEP) b)"
proof -
  assume lt: "a < b"
  have eq: "(b - (a + ANGLE_STEP)) / ANGLE_STEP = (b - a) / ANGLE_STEP - 1"
    using ANGLE_STEP_pos by (simp add: field_simps)
  have "0 < (b - a) / ANGLE_STEP"
    using lt ANGLE_STEP_pos by simp
  then have "0 < \<lceil>(b - a) / ANGLE_STEP\<rceil>"
    by simp
  then have "nat \<lceil>(b - a) / ANGLE_STEP\<rceil> = Suc (nat (\<lceil>(b - a) / ANGLE_STEP\<rceil> - 1))"
    by linarith
  then show ?thesis
    unfolding steps_between_def eq by simp
qed

lemma steps_between_less: "k < steps_between a b \<Longrightarrow> a + real k * ANGLE_STEP < b"
proof -
  assume "k < steps_between a b"
  then have "int k < \<lceil>(b - a) / ANGLE_STEP\<rceil>"
    by (simp add: steps_between_def)
  then have "real k < (b - a) / ANGLE_STEP"
    by (simp add: less_ceiling_iff)
  then show ?thesis
    using ANGLE_STEP_pos by (simp add: field_simps)
qed

lemma sample_loop_closed:
  "sample_loop c a l acc =
     acc @ map (\<lambda>k. shifted (center c) (radius c + EPSILON) (a + real k * ANGLE_STEP))
             [0..<steps_between a l]"
proof (induction c a l acc rule: sample_loop.induct)
  case (1 c angle limit boundary)
  show ?case
  proof (cases "angle < limit")
    case True
    have n: "steps_between angle limit = Suc (steps_between (angle + ANGLE_STEP) limit)"
      using True by (rule steps_between_Suc)
    have "sample_loop c angle limit boundary =
            sample_loop c (angle + ANGLE_STEP) limit
              (boundary @ [shifted (center c) (radius c + EPSILON) angle])"
      using True by (subst sample_loop.simps) simp
    also have "\<dots> = (boundary @ [shifted (center c) (radius c + EPSILON) angle]) @
        map (\<lambda>k. shifted (center c) (radius c + EPSILON) (angle + ANGLE_STEP + real k * ANGLE_STEP))
          [0..<steps_between (angle + ANGLE_STEP) limit]"
      using "1.IH" [OF True] .
    also have "\<dots> = boundary @
        map (\<lambda>k. shifted (center c) (radius c + EPSILON) (angle + real k * ANGLE_STEP))
          [0..<steps_between angle limit]"
      unfolding n upt_conv_Cons [OF zero_less_Suc] map_Suc_upt [symmetric]
      by (simp add: algebra_simps comp_def)
    finally show ?thesis .
  next
    case False
    then show ?thesis
      by (subst sample_loop.simps) (simp add: steps_between_0)
  qed
qed

lemma shifted_periodic: "shifted p d (a + 2 * pi) = shifted p d a"
  by (simp add: shifted_def)

lemma sampled_is_spec:
  "sample_loop c a b [] @ [shifted (center c) (radius c + EPSILON) b]
     = map (shifted (center c) (radius c + 1)) (spec_sample_angles a b)"
  by (simp add: sample_loop_closed spec_sample_angles_def steps_between_def ANGLE_STEP_eq
      EPSILON_def comp_def)

lemma spec_sample_angles_range:
  "\<alpha> \<in> set (spec_sample_angles a b) \<Longrightarrow> \<alpha> = b \<or> (a \<le> \<alpha> \<and> \<alpha> < b)"
proof -
  assume "\<alpha> \<in> set (spec_sample_angles a b)"
  then consider "\<alpha> = b" | k where "k < steps_between a b" "\<alpha> = a + real k * ANGLE_STEP"
    by (auto simp: spec_sample_angles_def steps_between_def ANGLE_STEP_eq)
  then show ?thesis
  proof cases
    case 1
    then show ?thesis by simp
  next
    case 2
    have "0 \<le> real k * ANGLE_STEP"
      using ANGLE_STEP_pos by simp
    with 2 steps_between_less [OF 2(1)] show ?thesis
      by simp
  qed
qed

lemma spec_sample_angles_extent:
  assumes "b - a \<le> pi" "\<alpha> \<in> set (spec_sample_angles a b)" "\<beta> \<in> set (spec_sample_angles a b)"
  shows "\<bar>\<alpha> - \<beta>\<bar> \<le> pi"
  using spec_sample_angles_range [OF assms(2)] spec_sample_angles_range [OF assms(3)] assms(1)
    pi_ge_zero
  by (elim disjE conjE) simp_all

lemma spec_sample_angles_nonempty: "spec_sample_angles a b \<noteq> []"
  by (simp add: spec_sample_angles_def)

lemma spec_short_arc_extent:
  assumes "\<alpha> \<in> set (spec_short_arc_angles dir_angle c start end')"
      and "\<beta> \<in> set (spec_short_arc_angles dir_angle c start end')"
  shows "\<bar>\<alpha> - \<beta>\<bar> \<le> pi"
proof -
  let ?lo = "min (dir_angle (center c) start) (dir_angle (center c) end')"
  let ?hi = "max (dir_angle (center c) start) (dir_angle (center c) end')"
  show ?thesis
  proof (cases "?hi - ?lo \<le> pi")
    case True
    with assms show ?thesis
      by (auto simp: spec_short_arc_angles_def Let_def intro: spec_sample_angles_extent)
  next
    case False
    then have "(?lo + 2 * pi) - ?hi \<le> pi"
      by simp
    moreover from assms False have "\<alpha> \<in> set (spec_sample_angles ?hi (?lo + 2 * pi))"
      "\<beta> \<in> set (spec_sample_angles ?hi (?lo + 2 * pi))"
      by (simp_all add: spec_short_arc_angles_def Let_def)
    ultimately show ?thesis
      by (rule spec_sample_angles_extent)
  qed
qed


lemma hd_spec_sample_angles: "hd (spec_sample_angles a b) = (if a < b then a else b)"
proof (cases "a < b")
  case True
  then have "steps_between a b = Suc (steps_between (a + ANGLE_STEP) b)"
    by (rule steps_between_Suc)
  then obtain m where "nat \<lceil>(b - a) / (pi / 40)\<rceil> = Suc m"
    by (simp add: steps_between_def ANGLE_STEP_eq)
  then show ?thesis
    using True by (simp add: spec_sample_angles_def upt_conv_Cons del: upt_Suc)
next
  case False
  then have "steps_between a b = 0"
    by (rule steps_between_0)
  then show ?thesis
    using False by (simp add: spec_sample_angles_def steps_between_def ANGLE_STEP_eq)
qed

lemma last_spec_sample_angles: "last (spec_sample_angles a b) = b"
  by (simp add: spec_sample_angles_def)

lemma get_boundary_between_oriented:
  "get_boundary_between dir_angle c start end' =
     Inr (if \<not> distance_to (hd (spec_short_arc dir_angle c start end')) start
               < distance_to (hd (spec_short_arc dir_angle c start end')) end'
          then rev (spec_short_arc dir_angle c start end')
          else spec_short_arc dir_angle c start end')"
proof -
  let ?lo = "min (dir_angle (center c) start) (dir_angle (center c) end')"
  let ?hi = "max (dir_angle (center c) start) (dir_angle (center c) end')"
  let ?P = "shifted (center c) (radius c + EPSILON)"
  have wrap: "sample_loop c ?hi (?lo + 2 * pi) [] @ [?P ?lo]
                = map (shifted (center c) (radius c + 1)) (spec_sample_angles ?hi (?lo + 2 * pi))"
    using sampled_is_spec [of c ?hi "?lo + 2 * pi"] by (simp add: shifted_periodic)
  have direct: "sample_loop c ?lo ?hi [] @ [?P ?hi]
                = map (shifted (center c) (radius c + 1)) (spec_sample_angles ?lo ?hi)"
    by (rule sampled_is_spec)
  have ne: "map (shifted (center c) (radius c + 1)) (spec_sample_angles a b) \<noteq> []" for a b
    by (simp add: spec_sample_angles_nonempty)
  show ?thesis
  proof (cases "?hi - ?lo \<le> pi")
    case True
    show ?thesis
      unfolding get_boundary_between_def spec_short_arc_def spec_short_arc_angles_def Let_def
        if_P [OF True] direct
      using ne [of ?lo ?hi] by (cases "map (shifted (center c) (radius c + 1)) (spec_sample_angles ?lo ?hi)") simp_all
  next
    case False
    show ?thesis
      unfolding get_boundary_between_def spec_short_arc_def spec_short_arc_angles_def Let_def
        if_not_P [OF False] wrap
      using ne [of ?hi "?lo + 2 * pi"]
      by (cases "map (shifted (center c) (radius c + 1)) (spec_sample_angles ?hi (?lo + 2 * pi))") simp_all
  qed
qed

lemma distance_shifted_shifted:
  "distance_to (shifted p r \<alpha>) (shifted p d \<beta>) = sqrt (r\<^sup>2 + d\<^sup>2 - 2 * r * d * cos (\<alpha> - \<beta>))"
proof -
  have "(r * cos \<alpha> - d * cos \<beta>)\<^sup>2 + (r * sin \<alpha> - d * sin \<beta>)\<^sup>2
          = r\<^sup>2 * ((cos \<alpha>)\<^sup>2 + (sin \<alpha>)\<^sup>2) + d\<^sup>2 * ((cos \<beta>)\<^sup>2 + (sin \<beta>)\<^sup>2)
            - 2 * r * d * (cos \<alpha> * cos \<beta> + sin \<alpha> * sin \<beta>)"
    by algebra
  also have "\<dots> = r\<^sup>2 + d\<^sup>2 - 2 * r * d * cos (\<alpha> - \<beta>)"
    by (simp add: cos_diff)
  finally have sq: "(r * cos \<alpha> - d * cos \<beta>)\<^sup>2 + (r * sin \<alpha> - d * sin \<beta>)\<^sup>2
          = r\<^sup>2 + d\<^sup>2 - 2 * r * d * cos (\<alpha> - \<beta>)" .
  have dx: "x (shifted p r \<alpha>) - x (shifted p d \<beta>) = r * cos \<alpha> - d * cos \<beta>"
    by (simp add: shifted_def)
  have dy: "y (shifted p r \<alpha>) - y (shifted p d \<beta>) = r * sin \<alpha> - d * sin \<beta>"
    by (simp add: shifted_def)
  show ?thesis
    unfolding distance_to_def dx dy sq ..
qed

lemma cos_less_one:
  fixes t :: real
  assumes "t \<noteq> 0" "\<bar>t\<bar> < 2 * pi"
  shows "cos t < 1"
proof -
  have "cos t \<noteq> 1"
  proof
    assume "cos t = 1"
    then obtain n :: int where n: "t = of_int n * 2 * pi"
      by (auto simp: cos_one_2pi_int)
    with assms(2) have lt: "\<bar>of_int n :: real\<bar> * (2 * pi) < 2 * pi"
      by (simp add: abs_mult)
    have "\<bar>of_int n :: real\<bar> < 1"
    proof (rule ccontr)
      assume "\<not> \<bar>of_int n :: real\<bar> < 1"
      then have "1 * (2 * pi) \<le> \<bar>of_int n :: real\<bar> * (2 * pi)"
        by (intro mult_right_mono) simp_all
      with lt show False
        by simp
    qed
    then have "n = 0"
      by linarith
    with n assms(1) show False
      by simp
  qed
  moreover have "cos t \<le> 1"
    by simp
  ultimately show ?thesis
    by linarith
qed

lemma nearer_own_direction:
  assumes "0 < r" "0 < d" "cos (\<alpha> - \<beta>) < 1"
  shows "distance_to (shifted p r \<alpha>) (shifted p d \<alpha>) < distance_to (shifted p r \<alpha>) (shifted p d \<beta>)"
proof -
  have "0 < r * d"
    using assms by simp
  then have "r * d * cos (\<alpha> - \<beta>) < r * d * 1"
    using assms(3) by (simp only: mult_less_cancel_left_pos)
  then show ?thesis
    by (simp add: distance_shifted_shifted)
qed


subsection \<open>Evaluating the sampled angles\<close>

lemma atan2_angle_simps:
  "atan2_angle (Coord a b) (Coord u v) = atan2 (v - b) (u - a)"
  by (simp add: atan2_angle_def segment_angle_def)

lemma first_angle_sampled: "a < b \<Longrightarrow> a \<in> set (spec_sample_angles a b)"
  using hd_in_set [OF spec_sample_angles_nonempty, of a b] by (simp add: hd_spec_sample_angles)

lemma last_angle_sampled: "b \<in> set (spec_sample_angles a b)"
  by (simp add: spec_sample_angles_def)

subsection \<open>The two ends of the sampled arc\<close>

lemma oriented_head:
  assumes ne: "B \<noteq> []"
      and ends: "(hd B = u \<and> last B = v) \<or> (hd B = v \<and> last B = u)"
      and nu: "distance_to u s < distance_to u e"
      and nv: "distance_to v e < distance_to v s"
  shows "\<exists>ps. (if \<not> distance_to (hd B) s < distance_to (hd B) e then rev B else B) = u # ps"
  using ends
proof
  assume "hd B = u \<and> last B = v"
  with ne nu have "(if \<not> distance_to (hd B) s < distance_to (hd B) e then rev B else B) = u # tl B"
    by (cases B) simp_all
  then show ?thesis ..
next
  assume h: "hd B = v \<and> last B = u"
  from ne have "rev B = last B # rev (butlast B)"
    by (metis append_butlast_last_id rev.simps(2) rev_rev_ident rev_swap rev_append append_Cons append_Nil)
  with h nv have "(if \<not> distance_to (hd B) s < distance_to (hd B) e then rev B else B) = u # rev (butlast B)"
    by simp
  then show ?thesis ..
qed

lemma spec_short_arc_ends:
  "spec_short_arc dir_angle c start end' \<noteq> []"
  "hd (spec_short_arc dir_angle c start end')
     = shifted (center c) (radius c + 1) (hd (spec_short_arc_angles dir_angle c start end'))"
  "last (spec_short_arc dir_angle c start end')
     = shifted (center c) (radius c + 1) (last (spec_short_arc_angles dir_angle c start end'))"
proof -
  have ne: "spec_short_arc_angles dir_angle c start end' \<noteq> []"
    by (simp add: spec_short_arc_angles_def Let_def spec_sample_angles_nonempty)
  then show "spec_short_arc dir_angle c start end' \<noteq> []"
    by (simp add: spec_short_arc_def)
  show "hd (spec_short_arc dir_angle c start end')
     = shifted (center c) (radius c + 1) (hd (spec_short_arc_angles dir_angle c start end'))"
    unfolding spec_short_arc_def using ne by (rule hd_map)
  show "last (spec_short_arc dir_angle c start end')
     = shifted (center c) (radius c + 1) (last (spec_short_arc_angles dir_angle c start end'))"
    unfolding spec_short_arc_def using ne by (rule last_map)
qed

subsection \<open>Minimum by key, directions and chords\<close>

lemma min_by_key_fold:
  fixes key :: "'a \<Rightarrow> real"
  shows "foldl (\<lambda>best q. if key q < key best then q else best) p ps \<in> set (p # ps)
   \<and> (\<forall>q\<in>set (p # ps). key (foldl (\<lambda>best q. if key q < key best then q else best) p ps) \<le> key q)"
proof (induction ps arbitrary: p)
  case Nil
  show ?case by simp
next
  case (Cons a ps)
  show ?case
  proof (cases "key a < key p")
    case True
    with Cons [of a] show ?thesis
      by (auto intro: order_trans less_imp_le)
  next
    case False
    with Cons [of p] show ?thesis
      by (auto intro: order_trans)
  qed
qed

lemma min_by_key_least:
  assumes "ps \<noteq> []"
  shows "\<exists>p. min_by_key key ps = Inr p \<and> p \<in> set ps \<and> (\<forall>q\<in>set ps. key p \<le> key q)"
proof -
  from assms obtain a as where ps: "ps = a # as"
    by (cases ps) auto
  show ?thesis
    unfolding ps min_by_key.simps using min_by_key_fold [of key a as] by blast
qed

lemma cos_sin_atan2:
  assumes "u \<noteq> 0 \<or> v \<noteq> 0"
  shows "cos (atan2 v u) = u / sqrt (u\<^sup>2 + v\<^sup>2) \<and> sin (atan2 v u) = v / sqrt (u\<^sup>2 + v\<^sup>2)"
proof -
  have root: "sqrt (1 + (v / u)\<^sup>2) = sqrt (u\<^sup>2 + v\<^sup>2) / \<bar>u\<bar>" if "u \<noteq> 0"
  proof -
    have "1 + (v / u)\<^sup>2 = (u\<^sup>2 + v\<^sup>2) / u\<^sup>2"
      using that by (simp add: field_simps power2_eq_square)
    then show ?thesis
      by (simp add: real_sqrt_divide)
  qed
  consider "0 < u" | "u < 0" "0 \<le> v" | "u < 0" "v < 0" | "u = 0" "0 < v" | "u = 0" "v < 0"
    using assms by linarith
  then show ?thesis
  proof cases
    case 1
    then show ?thesis
      by (simp add: atan2_def cos_arctan sin_arctan root)
  next
    case 2
    then show ?thesis
      by (simp add: atan2_def cos_arctan sin_arctan root)
  next
    case 3
    then show ?thesis
      by (simp add: atan2_def cos_arctan sin_arctan root cos_diff sin_diff)
  next
    case 4
    then show ?thesis
      by (simp add: atan2_def)
  next
    case 5
    then show ?thesis
      by (simp add: atan2_def)
  qed
qed


lemma distance_to_eq_iff:
  assumes "0 \<le> r"
  shows "distance_to p q = r \<longleftrightarrow> (x p - x q)\<^sup>2 + (y p - y q)\<^sup>2 = r\<^sup>2"
proof
  assume "distance_to p q = r"
  then have "(sqrt ((x p - x q)\<^sup>2 + (y p - y q)\<^sup>2))\<^sup>2 = r\<^sup>2"
    by (simp add: distance_to_def)
  then show "(x p - x q)\<^sup>2 + (y p - y q)\<^sup>2 = r\<^sup>2"
    by simp
next
  assume "(x p - x q)\<^sup>2 + (y p - y q)\<^sup>2 = r\<^sup>2"
  then show "distance_to p q = r"
    using assms by (simp add: distance_to_def)
qed

text \<open>
  Coordinates relative to the center: \<open>(a, b)\<close> is a point of the circle of radius \<open>r\<close>, and
  \<open>(u, v)\<close> ranges over the points of that circle at distance \<open>k\<close> from it.
\<close>

lemma chord_point_exists:
  fixes a b r k :: real
  assumes r: "0 < r" and on: "a\<^sup>2 + b\<^sup>2 = r\<^sup>2" and k: "0 \<le> k" "k \<le> 2 * r"
  shows "\<exists>u v. u\<^sup>2 + v\<^sup>2 = r\<^sup>2 \<and> (u - a)\<^sup>2 + (v - b)\<^sup>2 = k\<^sup>2"
proof -
  define m where "m = r\<^sup>2 - k\<^sup>2 / 2"
  define h where "h = sqrt (r\<^sup>2 * r\<^sup>2 - m\<^sup>2)"
  define u where "u = (a * m - b * h) / r\<^sup>2"
  define v where "v = (b * m + a * h) / r\<^sup>2"
  have k2: "k\<^sup>2 \<le> 4 * r\<^sup>2"
  proof -
    have "k\<^sup>2 \<le> (2 * r)\<^sup>2"
      using k by (intro power_mono) simp_all
    then show ?thesis by (simp add: power2_eq_square)
  qed
  have fac: "r\<^sup>2 * r\<^sup>2 - m\<^sup>2 = (k\<^sup>2 / 2) * (2 * r\<^sup>2 - k\<^sup>2 / 2)"
    unfolding m_def by algebra
  have "0 \<le> (k\<^sup>2 / 2) * (2 * r\<^sup>2 - k\<^sup>2 / 2)"
    using k2 by (intro mult_nonneg_nonneg) simp_all
  then have h2: "h\<^sup>2 = r\<^sup>2 * r\<^sup>2 - m\<^sup>2"
    unfolding h_def fac by simp
  have r2: "r\<^sup>2 \<noteq> 0"
    using r by simp
  have num: "(a * m - b * h)\<^sup>2 + (b * m + a * h)\<^sup>2 = (a\<^sup>2 + b\<^sup>2) * (m\<^sup>2 + h\<^sup>2)"
    by algebra
  have uv: "u\<^sup>2 + v\<^sup>2 = r\<^sup>2"
  proof -
    have "u\<^sup>2 + v\<^sup>2 = ((a * m - b * h)\<^sup>2 + (b * m + a * h)\<^sup>2) / (r\<^sup>2)\<^sup>2"
      unfolding u_def v_def power_divide add_divide_distrib [symmetric] ..
    also have "\<dots> = (r\<^sup>2 * (r\<^sup>2 * r\<^sup>2)) / (r\<^sup>2 * r\<^sup>2)"
      unfolding num on h2 power2_eq_square [of "r\<^sup>2"] by simp
    also have "\<dots> = r\<^sup>2"
      using r2 by (intro nonzero_mult_div_cancel_right) simp
    finally show ?thesis .
  qed
  have dot: "u * a + v * b = m"
  proof -
    have "u * a + v * b = (m * (a\<^sup>2 + b\<^sup>2)) / r\<^sup>2"
      by (simp add: u_def v_def add_divide_distrib [symmetric] power2_eq_square algebra_simps)
    also have "\<dots> = m"
      unfolding on using r2 by simp
    finally show ?thesis .
  qed
  have "(u - a)\<^sup>2 + (v - b)\<^sup>2 = (u\<^sup>2 + v\<^sup>2) + (a\<^sup>2 + b\<^sup>2) - 2 * (u * a + v * b)"
    by algebra
  also have "\<dots> = k\<^sup>2"
    unfolding uv on dot by (simp add: m_def)
  finally have "(u - a)\<^sup>2 + (v - b)\<^sup>2 = k\<^sup>2" .
  with uv show ?thesis
    by blast
qed

lemma chord_points_at_most_two:
  fixes a b r k :: real
  assumes r: "0 < r" and on: "a\<^sup>2 + b\<^sup>2 = r\<^sup>2"
  shows "\<exists>u1 v1 u2 v2. \<forall>u v. u\<^sup>2 + v\<^sup>2 = r\<^sup>2 \<and> (u - a)\<^sup>2 + (v - b)\<^sup>2 = k\<^sup>2
            \<longrightarrow> (u = u1 \<and> v = v1) \<or> (u = u2 \<and> v = v2)"
proof -
  define m where "m = r\<^sup>2 - k\<^sup>2 / 2"
  define h where "h = sqrt \<bar>r\<^sup>2 * r\<^sup>2 - m\<^sup>2\<bar>"
  have r2: "r\<^sup>2 \<noteq> 0"
    using r by simp
  have "(u = (a * m - b * h) / r\<^sup>2 \<and> v = (b * m + a * h) / r\<^sup>2)
        \<or> (u = (a * m + b * h) / r\<^sup>2 \<and> v = (b * m - a * h) / r\<^sup>2)"
    if uv: "u\<^sup>2 + v\<^sup>2 = r\<^sup>2" and ch: "(u - a)\<^sup>2 + (v - b)\<^sup>2 = k\<^sup>2" for u v
  proof -
    define w where "w = v * a - u * b"
    have "(u - a)\<^sup>2 + (v - b)\<^sup>2 = (u\<^sup>2 + v\<^sup>2) + (a\<^sup>2 + b\<^sup>2) - 2 * (u * a + v * b)"
      by algebra
    then have "k\<^sup>2 = r\<^sup>2 + r\<^sup>2 - 2 * (u * a + v * b)"
      unfolding ch uv on .
    then have dot: "u * a + v * b = m"
      unfolding m_def by (simp add: algebra_simps)
    have "w\<^sup>2 + (u * a + v * b)\<^sup>2 = (u\<^sup>2 + v\<^sup>2) * (a\<^sup>2 + b\<^sup>2)"
      unfolding w_def by algebra
    then have w2: "w\<^sup>2 = r\<^sup>2 * r\<^sup>2 - m\<^sup>2"
      unfolding dot uv on by simp
    then have "0 \<le> r\<^sup>2 * r\<^sup>2 - m\<^sup>2"
      by (metis zero_le_power2)
    then have "h\<^sup>2 = w\<^sup>2"
      unfolding h_def w2 by simp
    then have "h = w \<or> h = - w"
      by (simp add: power2_eq_iff)
    then have w: "w = h \<or> w = - h"
      by linarith
    have "u * (a\<^sup>2 + b\<^sup>2) = a * (u * a + v * b) - b * w"
      unfolding w_def by algebra
    then have u: "u = (a * m - b * w) / r\<^sup>2"
      unfolding dot on using r2 by (simp add: field_simps)
    have "v * (a\<^sup>2 + b\<^sup>2) = b * (u * a + v * b) + a * w"
      unfolding w_def by algebra
    then have v: "v = (b * m + a * w) / r\<^sup>2"
      unfolding dot on using r2 by (simp add: field_simps)
    from w show ?thesis
    proof
      assume "w = h"
      with u v show ?thesis by simp
    next
      assume "w = - h"
      with u v show ?thesis by simp
    qed
  qed
  then show ?thesis
    by blast
qed


lemma chord_set_card:
  assumes r: "0 < radius c" and on: "distance_to start (center c) = radius c" and k: "0 \<le> chord"
  shows "finite {q. distance_to q (center c) = radius c \<and> distance_to q start = chord}
         \<and> card {q. distance_to q (center c) = radius c \<and> distance_to q start = chord} \<le> 2"
proof -
  let ?S = "{q. distance_to q (center c) = radius c \<and> distance_to q start = chord}"
  define a where "a = x start - x (center c)"
  define b where "b = y start - y (center c)"
  have ab: "a\<^sup>2 + b\<^sup>2 = (radius c)\<^sup>2"
    using on r by (simp add: distance_to_eq_iff a_def b_def)
  from chord_points_at_most_two [OF r ab, of chord]
  obtain u1 v1 u2 v2 where two:
    "\<And>u v. u\<^sup>2 + v\<^sup>2 = (radius c)\<^sup>2 \<Longrightarrow> (u - a)\<^sup>2 + (v - b)\<^sup>2 = chord\<^sup>2
        \<Longrightarrow> (u = u1 \<and> v = v1) \<or> (u = u2 \<and> v = v2)"
    by blast
  have "?S \<subseteq> {Coord (x (center c) + u1) (y (center c) + v1), Coord (x (center c) + u2) (y (center c) + v2)}"
  proof
    fix q
    assume "q \<in> ?S"
    then have q1: "(x q - x (center c))\<^sup>2 + (y q - y (center c))\<^sup>2 = (radius c)\<^sup>2"
      and q2: "(x q - x start)\<^sup>2 + (y q - y start)\<^sup>2 = chord\<^sup>2"
      using r k by (simp_all add: distance_to_eq_iff)
    have e1: "x q - x start = (x q - x (center c)) - a"
      and e2: "y q - y start = (y q - y (center c)) - b"
      by (simp_all add: a_def b_def)
    from q2 have "((x q - x (center c)) - a)\<^sup>2 + ((y q - y (center c)) - b)\<^sup>2 = chord\<^sup>2"
      unfolding e1 e2 .
    from two [OF q1 this]
    have "(x q = x (center c) + u1 \<and> y q = y (center c) + v1)
          \<or> (x q = x (center c) + u2 \<and> y q = y (center c) + v2)"
      by (simp add: algebra_simps)
    then show "q \<in> {Coord (x (center c) + u1) (y (center c) + v1),
                    Coord (x (center c) + u2) (y (center c) + v2)}"
      by (cases q) (simp only: Coord.sel insert_iff Coord.inject, blast)
  qed
  moreover have "card {Coord (x (center c) + u1) (y (center c) + v1),
                       Coord (x (center c) + u2) (y (center c) + v2)} \<le> 2"
    by (simp add: card_insert_if)
  ultimately show ?thesis
    using finite_subset [of ?S] card_mono [of _ ?S] by (meson finite.emptyI finite.insertI order_trans)
qed

lemma chord_set_nonempty:
  assumes r: "0 < radius c" and on: "distance_to start (center c) = radius c"
      and k: "0 \<le> chord" "chord \<le> 2 * radius c"
  shows "\<exists>q. distance_to q (center c) = radius c \<and> distance_to q start = chord"
proof -
  define a where "a = x start - x (center c)"
  define b where "b = y start - y (center c)"
  have ab: "a\<^sup>2 + b\<^sup>2 = (radius c)\<^sup>2"
    using on r by (simp add: distance_to_eq_iff a_def b_def)
  from chord_point_exists [OF r ab k]
  obtain u v where uv: "u\<^sup>2 + v\<^sup>2 = (radius c)\<^sup>2" "(u - a)\<^sup>2 + (v - b)\<^sup>2 = chord\<^sup>2"
    by blast
  let ?q = "Coord (x (center c) + u) (y (center c) + v)"
  have e1: "x ?q - x start = u - a" and e2: "y ?q - y start = v - b"
    by (simp_all add: a_def b_def)
  have "(x ?q - x start)\<^sup>2 + (y ?q - y start)\<^sup>2 = chord\<^sup>2"
    unfolding e1 e2 by (rule uv(2))
  then have "distance_to ?q start = chord"
    using k by (simp only: distance_to_eq_iff)
  moreover have "distance_to ?q (center c) = radius c"
    using uv(1) r by (simp add: distance_to_eq_iff)
  ultimately show ?thesis
    by blast
qed

lemma shifted_towards:
  assumes "p \<noteq> q"
  shows "shifted p t (segment_angle (Segment p q))
           = Coord (x p + t * ((x q - x p) / distance_to p q)) (y p + t * ((y q - y p) / distance_to p q))"
proof -
  have nz: "x q - x p \<noteq> 0 \<or> y q - y p \<noteq> 0"
    using assms by (cases p; cases q) auto
  have d: "distance_to p q = sqrt ((x q - x p)\<^sup>2 + (y q - y p)\<^sup>2)"
    by (simp add: distance_to_def power2_commute)
  show ?thesis
    unfolding shifted_def segment_angle_def d using cos_sin_atan2 [OF nz] by simp
qed

lemma distance_shifted: "distance_to (shifted p t \<theta>) p = \<bar>t\<bar>"
proof -
  have "(t * cos \<theta>)\<^sup>2 + (t * sin \<theta>)\<^sup>2 = t\<^sup>2 * ((cos \<theta>)\<^sup>2 + (sin \<theta>)\<^sup>2)"
    by algebra
  then show ?thesis
    by (simp add: distance_to_def shifted_def)
qed

subsection \<open>Containment\<close>

text \<open>
  Claim C9. \<open>contains\<close> holds of a point exactly when its Euclidean distance to the center
  is at most the radius; in particular a point whose distance to the center equals the
  radius is contained.
\<close>

theorem contains_iff_distance:
  "(contains c p \<longleftrightarrow> sqrt ((x p - x (center c))\<^sup>2 + (y p - y (center c))\<^sup>2) \<le> radius c)
   \<and> (distance_to p (center c) = radius c \<longrightarrow> contains c p)"
  by (simp add: contains_def distance_to_def)

theorem contains_iff_distance_witness:
  "distance_to (Coord 6 4) (center (Circle (Coord 3 4) 3)) = radius (Circle (Coord 3 4) 3)
   \<and> contains (Circle (Coord 3 4) 3) (Coord 6 4)"
  using contains_iff_distance [of "Circle (Coord 3 4) 3" "Coord 6 4"]
  by (simp add: distance_to_def)

subsection \<open>Arc length\<close>

text \<open>
  Claim C5. \<open>arc_length_between\<close> returns exactly \<open>|\<theta>1 - \<theta>2| * radius\<close> for the directional angles
  \<open>\<theta>1\<close>, \<open>\<theta>2\<close> of start and end as seen from the center. The difference is not normalised: when
  it exceeds \<open>\<pi>\<close> (and the radius is positive) the result exceeds \<open>\<pi> * radius\<close>, the longest
  possible minor arc.
\<close>

theorem arc_length_between_raw:
  "arc_length_between dir_angle c start end'
     = \<bar>dir_angle (center c) start - dir_angle (center c) end'\<bar> * radius c
   \<and> (0 < radius c \<and> pi < \<bar>dir_angle (center c) start - dir_angle (center c) end'\<bar>
        \<longrightarrow> pi * radius c < arc_length_between dir_angle c start end')"
  by (simp add: arc_length_between_def Let_def)

theorem arc_length_between_raw_witness:
  "0 < radius (Circle (Coord 0 0) 2)
   \<and> pi < \<bar>atan2_angle (center (Circle (Coord 0 0) 2)) (Coord (- 1) 1)
            - atan2_angle (center (Circle (Coord 0 0) 2)) (Coord (- 1) (- 1))\<bar>
   \<and> pi * radius (Circle (Coord 0 0) 2)
        < arc_length_between atan2_angle (Circle (Coord 0 0) 2) (Coord (- 1) 1) (Coord (- 1) (- 1))
   \<and> arc_length_between atan2_angle (Circle (Coord 0 0) 2) (Coord (- 1) 1) (Coord (- 1) (- 1)) = 3 * pi"
proof -
  have a1: "atan2_angle (Coord 0 0) (Coord (- 1) 1) = 3 * pi / 4"
    by (simp add: atan2_angle_simps atan2_def arctan_minus arctan_one)
  have a2: "atan2_angle (Coord 0 0) (Coord (- 1) (- 1)) = - (3 * pi / 4)"
    by (simp add: atan2_angle_simps atan2_def arctan_one)
  have d: "\<bar>atan2_angle (center (Circle (Coord 0 0) 2)) (Coord (- 1) 1)
            - atan2_angle (center (Circle (Coord 0 0) 2)) (Coord (- 1) (- 1))\<bar> = 3 * pi / 2"
    by (simp add: a1 a2)
  have h: "pi < \<bar>atan2_angle (center (Circle (Coord 0 0) 2)) (Coord (- 1) 1)
            - atan2_angle (center (Circle (Coord 0 0) 2)) (Coord (- 1) (- 1))\<bar>"
    unfolding d by simp
  from arc_length_between_raw [of atan2_angle "Circle (Coord 0 0) 2" "Coord (- 1) 1" "Coord (- 1) (- 1)"]
  show ?thesis
    using h d by simp
qed

subsection \<open>The boundary between two points\<close>

text \<open>
  Claim C10. For every pair of points, also when start and end coincide,
  \<open>get_boundary_between\<close> returns a list (the read of its first element does not fail) and the
  list is not empty. For coinciding points it is the single point of the outer circle at their
  common angle.
\<close>

theorem get_boundary_between_nonempty:
  "(\<exists>ps. get_boundary_between dir_angle c start end' = Inr ps \<and> ps \<noteq> [])
   \<and> get_boundary_between dir_angle c start start
       = Inr [shifted (center c) (radius c + EPSILON) (dir_angle (center c) start)]"
proof
  show "\<exists>ps. get_boundary_between dir_angle c start end' = Inr ps \<and> ps \<noteq> []"
    by (simp add: get_boundary_between_def Let_def split: list.splits)
next
  have "sample_loop c a a [] = []" for a
    by (subst sample_loop.simps) simp
  then show "get_boundary_between dir_angle c start start
       = Inr [shifted (center c) (radius c + EPSILON) (dir_angle (center c) start)]"
    by (simp add: get_boundary_between_def Let_def)
qed

theorem get_boundary_between_nonempty_witness:
  "\<exists>ps. get_boundary_between atan2_angle (Circle (Coord 3 4) 3) (Coord 8 3) (Coord 8 3) = Inr ps
     \<and> ps \<noteq> []"
  using get_boundary_between_nonempty [of atan2_angle "Circle (Coord 3 4) 3" "Coord 8 3" "Coord 8 3"]
  by blast

text \<open>
  Claim C2. \<open>get_boundary_between\<close> computes the specification's short arc: up to the final
  orientation (the list or its reversal) the returned points are the samples, forward at step
  \<open>\<pi> / 40\<close>, of \<open>[lo, hi]\<close> when \<open>hi - lo \<le> \<pi>\<close> and of \<open>[hi, lo + 2\<pi>]\<close> otherwise; and any two of
  the sampled angles differ by at most \<open>\<pi>\<close>.
\<close>

theorem get_boundary_between_short_arc:
  "(\<exists>ps. get_boundary_between dir_angle c start end' = Inr ps
      \<and> (ps = spec_short_arc dir_angle c start end'
           \<or> ps = rev (spec_short_arc dir_angle c start end')))
   \<and> (\<forall>\<alpha>\<in>set (spec_short_arc_angles dir_angle c start end').
        \<forall>\<beta>\<in>set (spec_short_arc_angles dir_angle c start end'). \<bar>\<alpha> - \<beta>\<bar> \<le> pi)"
proof (intro conjI ballI)
  show "\<exists>ps. get_boundary_between dir_angle c start end' = Inr ps
      \<and> (ps = spec_short_arc dir_angle c start end'
           \<or> ps = rev (spec_short_arc dir_angle c start end'))"
    by (simp add: get_boundary_between_oriented)
next
  fix \<alpha> \<beta>
  assume "\<alpha> \<in> set (spec_short_arc_angles dir_angle c start end')"
    and "\<beta> \<in> set (spec_short_arc_angles dir_angle c start end')"
  then show "\<bar>\<alpha> - \<beta>\<bar> \<le> pi"
    by (rule spec_short_arc_extent)
qed

theorem get_boundary_between_short_arc_witness:
  "0 \<in> set (spec_short_arc_angles atan2_angle (Circle (Coord 0 0) 1) (Coord 1 0) (Coord 0 1))
   \<and> pi / 2 \<in> set (spec_short_arc_angles atan2_angle (Circle (Coord 0 0) 1) (Coord 1 0) (Coord 0 1))
   \<and> \<bar>0 - pi / 2\<bar> \<le> pi
   \<and> (\<exists>ps. get_boundary_between atan2_angle (Circle (Coord 0 0) 1) (Coord 1 0) (Coord 0 1) = Inr ps
         \<and> (ps = spec_short_arc atan2_angle (Circle (Coord 0 0) 1) (Coord 1 0) (Coord 0 1)
              \<or> ps = rev (spec_short_arc atan2_angle (Circle (Coord 0 0) 1) (Coord 1 0) (Coord 0 1))))"
proof -
  have angles: "spec_short_arc_angles atan2_angle (Circle (Coord 0 0) 1) (Coord 1 0) (Coord 0 1)
                  = spec_sample_angles 0 (pi / 2)"
    by (simp add: spec_short_arc_angles_def atan2_angle_simps atan2_def Let_def)
  have m0: "0 \<in> set (spec_short_arc_angles atan2_angle (Circle (Coord 0 0) 1) (Coord 1 0) (Coord 0 1))"
    unfolding angles by (rule first_angle_sampled) simp
  have m1: "pi / 2 \<in> set (spec_short_arc_angles atan2_angle (Circle (Coord 0 0) 1) (Coord 1 0) (Coord 0 1))"
    unfolding angles by (rule last_angle_sampled)
  from get_boundary_between_short_arc [of atan2_angle "Circle (Coord 0 0) 1" "Coord 1 0" "Coord 0 1"]
  show ?thesis
    using m0 m1 by blast
qed

text \<open>
  Claim C4, as amended. The orientation step compares only the first sampled point with start
  and end, and reverses the list unless that point is strictly nearer to start. When start and
  end lie at the same positive distance from the center, at the positions of two different
  directional angles less than \<open>2\<pi>\<close> apart, the first point of the result is strictly nearer
  to start than to end. For other inputs it need not be: for the circle of radius 1 about
  the origin, start \<open>(100, 0)\<close> and end \<open>(0, 2)\<close>, the first sampled point \<open>(2, 0)\<close> is nearer to end,
  the list is reversed, and the result begins with end itself.
\<close>

theorem first_point_nearer_start:
  assumes r: "0 \<le> radius c" and d: "0 < d"
      and s: "start = shifted (center c) d (dir_angle (center c) start)"
      and e: "end' = shifted (center c) d (dir_angle (center c) end')"
      and neq: "dir_angle (center c) start \<noteq> dir_angle (center c) end'"
      and lt: "\<bar>dir_angle (center c) start - dir_angle (center c) end'\<bar> < 2 * pi"
  shows "\<exists>p ps. get_boundary_between dir_angle c start end' = Inr (p # ps)
           \<and> distance_to p start < distance_to p end'"
proof -
  define t1 where "t1 = dir_angle (center c) start"
  define t2 where "t2 = dir_angle (center c) end'"
  define B where "B = spec_short_arc dir_angle c start end'"
  let ?P = "shifted (center c) (radius c + 1)"
  have s': "shifted (center c) d t1 = start" and e': "shifted (center c) d t2 = end'"
    using s e by (simp_all add: t1_def t2_def)
  have R: "0 < radius c + 1"
    using r by simp
  have "cos (t1 - t2) < 1"
    using neq lt by (intro cos_less_one) (simp_all add: t1_def t2_def)
  from nearer_own_direction [OF R d this, of "center c"]
  have ns: "distance_to (?P t1) start < distance_to (?P t1) end'"
    by (simp only: s' e')
  have "cos (t2 - t1) < 1"
    using neq lt by (intro cos_less_one) (simp_all add: t1_def t2_def abs_minus_commute)
  from nearer_own_direction [OF R d this, of "center c"]
  have ne: "distance_to (?P t2) end' < distance_to (?P t2) start"
    by (simp only: s' e')
  have angles: "spec_short_arc_angles dir_angle c start end' =
      (if max t1 t2 - min t1 t2 \<le> pi then spec_sample_angles (min t1 t2) (max t1 t2)
       else spec_sample_angles (max t1 t2) (min t1 t2 + 2 * pi))"
    by (simp add: spec_short_arc_angles_def Let_def t1_def t2_def)
  have t12: "t1 \<noteq> t2" "\<bar>t1 - t2\<bar> < 2 * pi"
    using neq lt by (simp_all add: t1_def t2_def)
  have per: "?P (t + 2 * pi) = ?P t" for t
    by (rule shifted_periodic)
  have ends: "(hd B = ?P t1 \<and> last B = ?P t2) \<or> (hd B = ?P t2 \<and> last B = ?P t1)"
  proof (cases "t1 < t2")
    case True
    then show ?thesis
      using t12 unfolding B_def spec_short_arc_ends(2,3) angles
      by (simp add: hd_spec_sample_angles last_spec_sample_angles per min_def max_def)
  next
    case False
    with t12 have "t2 < t1" by simp
    then show ?thesis
      using t12 unfolding B_def spec_short_arc_ends(2,3) angles
      by (simp add: hd_spec_sample_angles last_spec_sample_angles per min_def max_def)
  qed
  have "B \<noteq> []"
    unfolding B_def by (rule spec_short_arc_ends(1))
  from oriented_head [OF this ends ns ne]
  obtain ps where "(if \<not> distance_to (hd B) start < distance_to (hd B) end' then rev B else B) = ?P t1 # ps"
    by blast
  then have "get_boundary_between dir_angle c start end' = Inr (?P t1 # ps)"
    unfolding get_boundary_between_oriented B_def by simp
  with ns show ?thesis
    by blast
qed

theorem first_point_nearer_start_witness:
  "0 \<le> radius (Circle (Coord 0 0) 1) \<and> (0::real) < 1
   \<and> Coord 1 0 = shifted (center (Circle (Coord 0 0) 1)) 1
                   (atan2_angle (center (Circle (Coord 0 0) 1)) (Coord 1 0))
   \<and> Coord 0 1 = shifted (center (Circle (Coord 0 0) 1)) 1
                   (atan2_angle (center (Circle (Coord 0 0) 1)) (Coord 0 1))
   \<and> atan2_angle (center (Circle (Coord 0 0) 1)) (Coord 1 0)
       \<noteq> atan2_angle (center (Circle (Coord 0 0) 1)) (Coord 0 1)
   \<and> \<bar>atan2_angle (center (Circle (Coord 0 0) 1)) (Coord 1 0)
        - atan2_angle (center (Circle (Coord 0 0) 1)) (Coord 0 1)\<bar> < 2 * pi
   \<and> (\<exists>p ps. get_boundary_between atan2_angle (Circle (Coord 0 0) 1) (Coord 1 0) (Coord 0 1)
                = Inr (p # ps)
         \<and> distance_to p (Coord 1 0) < distance_to p (Coord 0 1))"
proof -
  have a1: "atan2_angle (center (Circle (Coord 0 0) 1)) (Coord 1 0) = 0"
    by (simp add: atan2_angle_simps atan2_def)
  have a2: "atan2_angle (center (Circle (Coord 0 0) 1)) (Coord 0 1) = pi / 2"
    by (simp add: atan2_angle_simps atan2_def)
  have h1: "0 \<le> radius (Circle (Coord 0 0) 1)" and h2: "(0::real) < 1"
    by simp_all
  have h3: "Coord 1 0 = shifted (center (Circle (Coord 0 0) 1)) 1
                   (atan2_angle (center (Circle (Coord 0 0) 1)) (Coord 1 0))"
    unfolding a1 by (simp add: shifted_def)
  have h4: "Coord 0 1 = shifted (center (Circle (Coord 0 0) 1)) 1
                   (atan2_angle (center (Circle (Coord 0 0) 1)) (Coord 0 1))"
    unfolding a2 by (simp add: shifted_def)
  have h5: "atan2_angle (center (Circle (Coord 0 0) 1)) (Coord 1 0)
       \<noteq> atan2_angle (center (Circle (Coord 0 0) 1)) (Coord 0 1)"
    unfolding a1 a2 by simp
  have h6: "\<bar>atan2_angle (center (Circle (Coord 0 0) 1)) (Coord 1 0)
        - atan2_angle (center (Circle (Coord 0 0) 1)) (Coord 0 1)\<bar> < 2 * pi"
    unfolding a1 a2 by simp
  from first_point_nearer_start [where dir_angle = atan2_angle and c = "Circle (Coord 0 0) 1"
      and d = 1 and start = "Coord 1 0" and end' = "Coord 0 1", OF h1 h2 h3 h4 h5 h6]
    h1 h2 h3 h4 h5 h6
  show ?thesis
    by blast
qed

theorem first_point_counterexample:
  "map_sum id hd (get_boundary_between atan2_angle (Circle (Coord 0 0) 1) (Coord 100 0) (Coord 0 2))
     = Inr (Coord 0 2)
   \<and> \<not> distance_to (Coord 0 2) (Coord 100 0) < distance_to (Coord 0 2) (Coord 0 2)"
proof
  let ?B = "spec_short_arc atan2_angle (Circle (Coord 0 0) 1) (Coord 100 0) (Coord 0 2)"
  have angles: "spec_short_arc_angles atan2_angle (Circle (Coord 0 0) 1) (Coord 100 0) (Coord 0 2)
                  = spec_sample_angles 0 (pi / 2)"
    by (simp add: spec_short_arc_angles_def atan2_angle_simps atan2_def Let_def)
  have hdB: "hd ?B = Coord 2 0"
    unfolding spec_short_arc_ends(2) angles by (simp add: hd_spec_sample_angles shifted_def)
  have lastB: "last ?B = Coord 0 2"
    unfolding spec_short_arc_ends(3) angles by (simp add: last_spec_sample_angles shifted_def)
  have "sqrt 8 < 98"
    by (rule real_less_lsqrt) simp_all
  then have far: "\<not> distance_to (Coord 2 0) (Coord 100 0) < distance_to (Coord 2 0) (Coord 0 2)"
    by (simp add: distance_to_def)
  have "hd (rev ?B) = last ?B"
    by (simp add: hd_rev)
  then show "map_sum id hd (get_boundary_between atan2_angle (Circle (Coord 0 0) 1) (Coord 100 0) (Coord 0 2))
     = Inr (Coord 0 2)"
    unfolding get_boundary_between_oriented hdB using far by (simp add: lastB)
next
  show "\<not> distance_to (Coord 0 2) (Coord 100 0) < distance_to (Coord 0 2) (Coord 0 2)"
    by (simp add: distance_to_def)
qed

subsection \<open>The exit point\<close>

text \<open>
  Claim C1. For a circle of positive radius and a start point on it:
  if \<open>chord \<ge> 2 * radius\<close>, \<open>calculate_exit_point\<close> returns start shifted by exactly \<open>2 * radius\<close>
  along the unit vector from start to the center;
  if \<open>0 \<le> chord < 2 * radius\<close> and the helper lists exactly the points of the circle at distance
  \<open>chord\<close> from start (there are at most two, and at least one), it returns one of these points
  whose distance to the target is the least.
\<close>

theorem calculate_exit_point_spec:
  assumes r: "0 < radius c" and on: "distance_to start (center c) = radius c"
  shows "(radius c * 2 \<le> chord \<longrightarrow>
            calculate_exit_point points_in_distance c start chord target
              = Inr (Coord (x start + 2 * radius c * ((x (center c) - x start) / distance_to start (center c)))
                           (y start + 2 * radius c * ((y (center c) - y start) / distance_to start (center c)))))
         \<and> (radius c * 2 \<le> chord \<longrightarrow>
              (\<exists>p. calculate_exit_point points_in_distance c start chord target = Inr p
                   \<and> distance_to p start = 2 * radius c))
         \<and> (0 \<le> chord \<and> chord < 2 * radius c
             \<and> set (points_in_distance (center c) (radius c) start chord)
                 = {q. distance_to q (center c) = radius c \<and> distance_to q start = chord}
            \<longrightarrow> card {q. distance_to q (center c) = radius c \<and> distance_to q start = chord} \<le> 2
              \<and> (\<exists>p. calculate_exit_point points_in_distance c start chord target = Inr p
                    \<and> distance_to p (center c) = radius c \<and> distance_to p start = chord
                    \<and> (\<forall>q. distance_to q (center c) = radius c \<and> distance_to q start = chord
                          \<longrightarrow> distance_to p target \<le> distance_to q target)))"
proof (intro conjI impI)
  assume "radius c * 2 \<le> chord"
  moreover have "start \<noteq> center c"
  proof
    assume "start = center c"
    then have "distance_to start (center c) = 0"
      by (simp add: distance_to_def)
    with on r show False by simp
  qed
  ultimately show "calculate_exit_point points_in_distance c start chord target
              = Inr (Coord (x start + 2 * radius c * ((x (center c) - x start) / distance_to start (center c)))
                           (y start + 2 * radius c * ((y (center c) - y start) / distance_to start (center c))))"
    by (simp add: calculate_exit_point_def shifted_towards)
next
  assume "radius c * 2 \<le> chord"
  then have "calculate_exit_point points_in_distance c start chord target
               = Inr (shifted start (2 * radius c) (segment_angle (Segment start (center c))))"
    by (simp add: calculate_exit_point_def)
  moreover have "distance_to (shifted start (2 * radius c) (segment_angle (Segment start (center c)))) start
                   = 2 * radius c"
    using r by (simp add: distance_shifted)
  ultimately show "\<exists>p. calculate_exit_point points_in_distance c start chord target = Inr p
                   \<and> distance_to p start = 2 * radius c"
    by blast
next
  assume h: "0 \<le> chord \<and> chord < 2 * radius c
             \<and> set (points_in_distance (center c) (radius c) start chord)
                 = {q. distance_to q (center c) = radius c \<and> distance_to q start = chord}"
  then show "card {q. distance_to q (center c) = radius c \<and> distance_to q start = chord} \<le> 2"
    using chord_set_card [OF r on, of chord] by simp
next
  assume h: "0 \<le> chord \<and> chord < 2 * radius c
             \<and> set (points_in_distance (center c) (radius c) start chord)
                 = {q. distance_to q (center c) = radius c \<and> distance_to q start = chord}"
  let ?ps = "points_in_distance (center c) (radius c) start chord"
  from h have pts: "set ?ps = {q. distance_to q (center c) = radius c \<and> distance_to q start = chord}"
    by simp
  from h chord_set_nonempty [OF r on, of chord] have "set ?ps \<noteq> {}"
    unfolding pts by auto
  then have "?ps \<noteq> []"
    by auto
  from min_by_key_least [OF this, of "\<lambda>p. distance_to p target"]
  obtain p where p: "min_by_key (\<lambda>p. distance_to p target) ?ps = Inr p" "p \<in> set ?ps"
    "\<forall>q\<in>set ?ps. distance_to p target \<le> distance_to q target"
    by blast
  from h have "calculate_exit_point points_in_distance c start chord target = Inr p"
    by (simp add: calculate_exit_point_def p(1))
  with p(2,3) show "\<exists>p. calculate_exit_point points_in_distance c start chord target = Inr p
                    \<and> distance_to p (center c) = radius c \<and> distance_to p start = chord
                    \<and> (\<forall>q. distance_to q (center c) = radius c \<and> distance_to q start = chord
                          \<longrightarrow> distance_to p target \<le> distance_to q target)"
    unfolding pts by blast
qed


theorem calculate_exit_point_spec_witness:
  "0 < radius (Circle (Coord 0 0) 25)
   \<and> distance_to (Coord 25 0) (center (Circle (Coord 0 0) 25)) = radius (Circle (Coord 0 0) 25)
   \<and> radius (Circle (Coord 0 0) 25) * 2 \<le> 60
   \<and> calculate_exit_point (\<lambda>ctr rad p ch. [Coord 7 24, Coord 7 (- 24)]) (Circle (Coord 0 0) 25)
        (Coord 25 0) 60 (Coord 0 30) = Inr (Coord (- 25) 0)
   \<and> (0::real) \<le> 30 \<and> 30 < 2 * radius (Circle (Coord 0 0) 25)
   \<and> set [Coord 7 24, Coord 7 (- 24)]
       = {q. distance_to q (center (Circle (Coord 0 0) 25)) = radius (Circle (Coord 0 0) 25)
             \<and> distance_to q (Coord 25 0) = 30}
   \<and> (\<exists>p. calculate_exit_point (\<lambda>ctr rad p ch. [Coord 7 24, Coord 7 (- 24)]) (Circle (Coord 0 0) 25)
             (Coord 25 0) 30 (Coord 0 30) = Inr p
         \<and> distance_to p (center (Circle (Coord 0 0) 25)) = radius (Circle (Coord 0 0) 25)
         \<and> distance_to p (Coord 25 0) = 30
         \<and> distance_to p (Coord 0 30) \<le> distance_to (Coord 7 (- 24)) (Coord 0 30))"
proof -
  let ?C = "Circle (Coord 0 0) 25"
  let ?pts = "\<lambda>(ctr::Coord) (rad::real) (p::Coord) (ch::real). [Coord 7 24, Coord 7 (- 24)]"
  have h1: "0 < radius ?C"
    by simp
  have h2: "distance_to (Coord 25 0) (center ?C) = radius ?C"
    by (simp add: distance_to_eq_iff)
  have h3: "set (?pts (center ?C) (radius ?C) (Coord 25 0) 30)
              = {q. distance_to q (center ?C) = radius ?C \<and> distance_to q (Coord 25 0) = 30}"
  proof (intro set_eqI iffI)
    fix q
    assume "q \<in> set (?pts (center ?C) (radius ?C) (Coord 25 0) 30)"
    then have "q = Coord 7 24 \<or> q = Coord 7 (- 24)"
      by simp
    then show "q \<in> {q. distance_to q (center ?C) = radius ?C \<and> distance_to q (Coord 25 0) = 30}"
      by (auto simp: distance_to_eq_iff)
  next
    fix q
    assume "q \<in> {q. distance_to q (center ?C) = radius ?C \<and> distance_to q (Coord 25 0) = 30}"
    then have e1: "(x q)\<^sup>2 + (y q)\<^sup>2 = 625" and e2: "(x q - 25)\<^sup>2 + (y q)\<^sup>2 = 900"
      by (simp_all add: distance_to_eq_iff)
    have "(x q - 25)\<^sup>2 = (x q)\<^sup>2 - 50 * x q + 625"
      by algebra
    with e1 e2 have xq: "x q = 7"
      by simp
    with e1 have "(y q)\<^sup>2 = 24\<^sup>2"
      by simp
    then have "y q = 24 \<or> y q = - 24"
      by (simp only: power2_eq_iff)
    with xq show "q \<in> set (?pts (center ?C) (radius ?C) (Coord 25 0) 30)"
      by (cases q) auto
  qed
  have far: "Coord 7 (- 24) \<in> {q. distance_to q (center ?C) = radius ?C \<and> distance_to q (Coord 25 0) = 30}"
    unfolding h3 [symmetric] by simp
  from calculate_exit_point_spec [OF h1 h2, of 60 ?pts "Coord 0 30"]
  have big: "calculate_exit_point ?pts ?C (Coord 25 0) 60 (Coord 0 30) = Inr (Coord (- 25) 0)"
    using h2 by simp
  from calculate_exit_point_spec [OF h1 h2, of 30 ?pts "Coord 0 30"] h3
  obtain p where p: "calculate_exit_point ?pts ?C (Coord 25 0) 30 (Coord 0 30) = Inr p"
    "distance_to p (center ?C) = radius ?C" "distance_to p (Coord 25 0) = 30"
    "\<forall>q. distance_to q (center ?C) = radius ?C \<and> distance_to q (Coord 25 0) = 30
         \<longrightarrow> distance_to p (Coord 0 30) \<le> distance_to q (Coord 0 30)"
    by auto
  from p(4) far have "distance_to p (Coord 0 30) \<le> distance_to (Coord 7 (- 24)) (Coord 0 30)"
    by blast
  with p(1,2,3) h1 h2 h3 big show ?thesis
    by auto
qed

subsection \<open>The partition between two circles\<close>

lemma inf_partition_on_line:
  "segment_points (inf_partition circle1 circle2) \<subseteq> perpendicular_line circle1 circle2"
proof
  fix p
  assume "p \<in> segment_points (inf_partition circle1 circle2)"
  define pb where "pb = shifted (center circle1)
      ((radius circle1 + (segment_length (Segment (center circle1) (center circle2)) - radius circle2)) / 2)
      (segment_angle (Segment (center circle1) (center circle2)))"
  define th where "th = segment_angle (Segment (center circle1) (center circle2))"
  have ip: "inf_partition circle1 circle2
              = Segment (shifted pb INF_const (th + 0.5 * pi)) (shifted pb INF_const (th - 0.5 * pi))"
    by (simp add: inf_partition_def Let_def pb_def th_def)
  have line: "perpendicular_line circle1 circle2 = {p. \<exists>t. p = shifted pb t (th + 0.5 * pi)}"
    by (simp add: perpendicular_line_def Let_def pb_def th_def)
  have c: "cos (th - 0.5 * pi) = - cos (th + 0.5 * pi)" and s: "sin (th - 0.5 * pi) = - sin (th + 0.5 * pi)"
    by (simp_all add: cos_diff cos_add sin_diff sin_add)
  from \<open>p \<in> segment_points (inf_partition circle1 circle2)\<close>
  obtain t where t: "p = Coord (x pb + INF_const * cos (th + 0.5 * pi)
                                + t * (INF_const * cos (th - 0.5 * pi) - INF_const * cos (th + 0.5 * pi)))
                              (y pb + INF_const * sin (th + 0.5 * pi)
                                + t * (INF_const * sin (th - 0.5 * pi) - INF_const * sin (th + 0.5 * pi)))"
    unfolding ip segment_points_def by (auto simp: shifted_def)
  have "p = shifted pb (INF_const * (1 - 2 * t)) (th + 0.5 * pi)"
    unfolding t c s shifted_def by (simp add: algebra_simps)
  then show "p \<in> perpendicular_line circle1 circle2"
    unfolding line by blast
qed

lemma weighted_sum_le:
  fixes ws vs :: "real list"
  assumes "length ws = length vs" "\<forall>w\<in>set ws. 0 \<le> w" "\<forall>v\<in>set vs. v \<le> m"
  shows "sum_list (map2 (\<lambda>w v. w * v) ws vs) \<le> m * sum_list ws"
  using assms
proof (induction ws vs rule: list_induct2)
  case Nil
  show ?case by simp
next
  case (Cons w ws v vs)
  then have "w * v \<le> w * m"
    by (intro mult_left_mono) simp_all
  moreover from Cons have "sum_list (map2 (\<lambda>w v. w * v) ws vs) \<le> m * sum_list ws"
    by simp
  ultimately show ?case
    by (simp add: algebra_simps)
qed

lemma convex_hull_x_le:
  assumes "p \<in> convex_hull ps" "\<forall>q\<in>set ps. x q \<le> m"
  shows "x p \<le> m"
proof -
  from assms(1) obtain ws where ws: "length ws = length ps" "\<forall>w\<in>set ws. 0 \<le> w" "sum_list ws = 1"
    "x p = sum_list (map2 (\<lambda>w q. w * x q) ws ps)"
    unfolding convex_hull_def by blast
  have "sum_list (map2 (\<lambda>w q. w * x q) ws ps) = sum_list (map2 (\<lambda>w v. w * v) ws (map x ps))"
    by (simp add: zip_map2 comp_def case_prod_unfold)
  also have "\<dots> \<le> m * sum_list ws"
    using ws(1,2) assms(2) by (intro weighted_sum_le) simp_all
  finally show ?thesis
    using ws(3,4) by simp
qed

lemma at_most_one_coordinate:
  assumes "distinct ips" "set ips \<subseteq> {p0}"
  shows "ips = [] \<or> ips = [p0]"
proof (cases ips)
  case Nil
  then show ?thesis by simp
next
  case (Cons a rest)
  with assms have a: "a = p0" and "set rest \<subseteq> {p0}" "p0 \<notin> set rest"
    by auto
  then have "rest = []"
    by (cases rest) auto
  with a Cons show ?thesis by simp
qed

lemma perpendicular_line_eval:
  assumes "segment_length (Segment (center c1) (center c2)) = d"
      and "segment_angle (Segment (center c1) (center c2)) = 0"
      and "x (center c1) + (radius c1 + (d - radius c2)) / 2 = m"
  shows "p \<in> perpendicular_line c1 c2 \<Longrightarrow> x p = m"
  using assms(3) unfolding perpendicular_line_def Let_def assms(1,2)
  by (auto simp: shifted_def)

lemma six_weights:
  assumes "length (ws :: real list) = 6"
  obtains w1 w2 w3 w4 w5 w6 where "ws = [w1, w2, w3, w4, w5, w6]"
  using assms by (auto simp: length_Suc_conv eval_nat_numeral)

text \<open>
  Claim C8, as amended. \<open>calculate_partition_between_circles\<close> has no typed failure and never
  fails with \<open>DegeneratePartition\<close>. With fewer than three points for the hull (no circle
  listed: only source and target) it fails with Python's \<open>ValueError\<close>. Otherwise, when the
  perpendicular line through the point between the circles has at most one point in common
  with the convex hull (for example when that point lies outside the hull), it fails with
  Python's \<open>IndexError\<close>; here the coordinates that shapely returns for the intersection are
  taken to be distinct points of the hull on the perpendicular segment. Nothing is said of a
  line that crosses the hull. The counterexample is an environment around the origin and two
  circles near \<open>(105, 0)\<close>: the perpendicular misses the hull, the intersection has no
  coordinates, and the failure is \<open>IndexError\<close>, not \<open>DegeneratePartition\<close>.
\<close>

theorem partition_failure:
  "(length ([source, target] @ concat (map polygon_boundary all_circles)) < 3
      \<longrightarrow> calculate_partition_between_circles polygon_boundary hull_intersection
             circle1 circle2 source target all_circles = Inl ValueError)
   \<and> (3 \<le> length ([source, target] @ concat (map polygon_boundary all_circles))
       \<and> distinct (hull_intersection ([source, target] @ concat (map polygon_boundary all_circles))
                     (inf_partition circle1 circle2))
       \<and> set (hull_intersection ([source, target] @ concat (map polygon_boundary all_circles))
                (inf_partition circle1 circle2))
           \<subseteq> segment_points (inf_partition circle1 circle2)
               \<inter> convex_hull ([source, target] @ concat (map polygon_boundary all_circles))
       \<and> (\<exists>p0. perpendicular_line circle1 circle2
                  \<inter> convex_hull ([source, target] @ concat (map polygon_boundary all_circles))
                \<subseteq> {p0})
      \<longrightarrow> calculate_partition_between_circles polygon_boundary hull_intersection
             circle1 circle2 source target all_circles = Inl IndexError)
   \<and> calculate_partition_between_circles polygon_boundary hull_intersection
         circle1 circle2 source target all_circles \<noteq> Inl DegeneratePartition"
proof (intro conjI impI)
  let ?pts = "[source, target] @ concat (map polygon_boundary all_circles)"
  let ?ips = "hull_intersection ?pts (inf_partition circle1 circle2)"
  show "calculate_partition_between_circles polygon_boundary hull_intersection
         circle1 circle2 source target all_circles = Inl ValueError"
    if "length ?pts < 3"
    using that by (simp add: calculate_partition_between_circles_def)
  show "calculate_partition_between_circles polygon_boundary hull_intersection
         circle1 circle2 source target all_circles = Inl IndexError"
    if h: "3 \<le> length ?pts \<and> distinct ?ips
           \<and> set ?ips \<subseteq> segment_points (inf_partition circle1 circle2) \<inter> convex_hull ?pts
           \<and> (\<exists>p0. perpendicular_line circle1 circle2 \<inter> convex_hull ?pts \<subseteq> {p0})"
  proof -
    from h obtain p0 where p0: "perpendicular_line circle1 circle2 \<inter> convex_hull ?pts \<subseteq> {p0}"
      by blast
    from h have "set ?ips \<subseteq> perpendicular_line circle1 circle2 \<inter> convex_hull ?pts"
      using inf_partition_on_line [of circle1 circle2] by blast
    with p0 have "set ?ips \<subseteq> {p0}"
      by blast
    with h have "?ips = [] \<or> ?ips = [p0]"
      by (intro at_most_one_coordinate) simp_all
    moreover from h have "3 \<le> length ?pts"
      by (rule conjunct1)
    then have "\<not> length ?pts < 3"
      by (simp only: not_less)
    ultimately show ?thesis
      unfolding calculate_partition_between_circles_def Let_def by auto
  qed
  show "calculate_partition_between_circles polygon_boundary hull_intersection
         circle1 circle2 source target all_circles \<noteq> Inl DegeneratePartition"
    unfolding calculate_partition_between_circles_def Let_def
    by (cases ?ips rule: remdups_adj.cases) auto
qed

theorem partition_failure_witness:
  "length ([Coord 0 5, Coord 0 (- 5)] @ concat (map (\<lambda>c. [Coord (x (center c) + radius c) (y (center c)),
                Coord (x (center c)) (y (center c) + radius c),
                Coord (x (center c) - radius c) (y (center c)),
                Coord (x (center c)) (y (center c) - radius c)]) [])) < 3
   \<and> calculate_partition_between_circles
         (\<lambda>c. [Coord (x (center c) + radius c) (y (center c)),
                Coord (x (center c)) (y (center c) + radius c),
                Coord (x (center c) - radius c) (y (center c)),
                Coord (x (center c)) (y (center c) - radius c)])
         (\<lambda>points segment. [])
         (Circle (Coord 100 0) 1) (Circle (Coord 110 0) 1) (Coord 0 5) (Coord 0 (- 5)) []
       = Inl ValueError
   \<and> perpendicular_line (Circle (Coord 100 0) 1) (Circle (Coord 110 0) 1) \<inter> convex_hull [Coord 0 5, Coord 0 (- 5), Coord 1 0, Coord 0 1, Coord (- 1) 0, Coord 0 (- 1)] = {}
   \<and> calculate_partition_between_circles
         (\<lambda>c. [Coord (x (center c) + radius c) (y (center c)),
                Coord (x (center c)) (y (center c) + radius c),
                Coord (x (center c) - radius c) (y (center c)),
                Coord (x (center c)) (y (center c) - radius c)])
         (\<lambda>points segment. [])
         (Circle (Coord 100 0) 1) (Circle (Coord 110 0) 1) (Coord 0 5) (Coord 0 (- 5))
         [Circle (Coord 0 0) 1]
       = Inl IndexError
   \<and> distinct [Coord 1 0]
   \<and> set [Coord 1 0]
       \<subseteq> segment_points (inf_partition (Circle (Coord (- 4) 0) 1) (Circle (Coord 6 0) 1))
           \<inter> convex_hull [Coord 0 5, Coord 0 (- 5), Coord 1 0, Coord 0 1, Coord (- 1) 0, Coord 0 (- 1)]
   \<and> perpendicular_line (Circle (Coord (- 4) 0) 1) (Circle (Coord 6 0) 1) \<inter> convex_hull [Coord 0 5, Coord 0 (- 5), Coord 1 0, Coord 0 1, Coord (- 1) 0, Coord 0 (- 1)]
       \<subseteq> {Coord 1 0}
   \<and> calculate_partition_between_circles
         (\<lambda>c. [Coord (x (center c) + radius c) (y (center c)),
                Coord (x (center c)) (y (center c) + radius c),
                Coord (x (center c) - radius c) (y (center c)),
                Coord (x (center c)) (y (center c) - radius c)])
         (\<lambda>points segment. [Coord 1 0])
         (Circle (Coord (- 4) 0) 1) (Circle (Coord 6 0) 1) (Coord 0 5) (Coord 0 (- 5))
         [Circle (Coord 0 0) 1]
       = Inl IndexError"
proof -
  let ?PB = "(\<lambda>c. [Coord (x (center c) + radius c) (y (center c)),
                Coord (x (center c)) (y (center c) + radius c),
                Coord (x (center c) - radius c) (y (center c)),
                Coord (x (center c)) (y (center c) - radius c)])"
  let ?none = "\<lambda>(points :: Coord list) (segment :: Segment). [] :: Coord list"
  let ?touch = "\<lambda>(points :: Coord list) (segment :: Segment). [Coord 1 0]"
  let ?C1 = "Circle (Coord 100 0) 1" and ?C2 = "Circle (Coord 110 0) 1"
  let ?D1 = "Circle (Coord (- 4) 0) 1" and ?D2 = "Circle (Coord 6 0) 1"
  let ?pts = "[Coord 0 5, Coord 0 (- 5), Coord 1 0, Coord 0 1, Coord (- 1) 0, Coord 0 (- 1)]"
  have pts: "[Coord 0 5, Coord 0 (- 5)] @ concat (map ?PB [Circle (Coord 0 0) 1]) = ?pts"
    by simp
  have root: "sqrt (100::real) = 10"
    by (rule real_sqrt_unique) simp_all
  have few: "length ([Coord 0 5, Coord 0 (- 5)] @ concat (map ?PB [])) < 3"
    by simp
  have many: "3 \<le> length ([Coord 0 5, Coord 0 (- 5)] @ concat (map ?PB [Circle (Coord 0 0) 1]))"
    by simp
  \<comment> \<open>no circle listed\<close>
  from partition_failure [of "Coord 0 5" "Coord 0 (- 5)" ?PB "[]" ?none ?C1 ?C2] few
  have v: "calculate_partition_between_circles ?PB ?none ?C1 ?C2 (Coord 0 5) (Coord 0 (- 5)) []
             = Inl ValueError"
    by blast
  \<comment> \<open>the perpendicular \<open>x = 105\<close> misses the hull\<close>
  have len: "segment_length (Segment (center ?C1) (center ?C2)) = 10"
    using root by (simp add: segment_length_def distance_to_def)
  have ang: "segment_angle (Segment (center ?C1) (center ?C2)) = 0"
    by (simp add: segment_angle_def atan2_def)
  have line: "x p = 105" if "p \<in> perpendicular_line ?C1 ?C2" for p
    using perpendicular_line_eval [OF len ang, of 105 p] that by simp
  have hull: "x p \<le> 1" if "p \<in> convex_hull ?pts" for p
    using that by (rule convex_hull_x_le) simp
  have empty: "perpendicular_line ?C1 ?C2 \<inter> convex_hull ?pts = {}"
  proof (rule ccontr)
    assume "perpendicular_line ?C1 ?C2 \<inter> convex_hull ?pts \<noteq> {}"
    then obtain p where "p \<in> perpendicular_line ?C1 ?C2" "p \<in> convex_hull ?pts"
      by blast
    with line [of p] hull [of p] show False
      by simp
  qed
  have one: "\<exists>p0. perpendicular_line ?C1 ?C2
                 \<inter> convex_hull ([Coord 0 5, Coord 0 (- 5)] @ concat (map ?PB [Circle (Coord 0 0) 1]))
               \<subseteq> {p0}"
    unfolding pts empty by simp
  from partition_failure [of "Coord 0 5" "Coord 0 (- 5)" ?PB "[Circle (Coord 0 0) 1]" ?none ?C1 ?C2]
    many one
  have i: "calculate_partition_between_circles ?PB ?none ?C1 ?C2 (Coord 0 5) (Coord 0 (- 5))
             [Circle (Coord 0 0) 1] = Inl IndexError"
    by simp
  \<comment> \<open>the perpendicular \<open>x = 1\<close> touches the hull at \<open>(1, 0)\<close> only\<close>
  have len': "segment_length (Segment (center ?D1) (center ?D2)) = 10"
    using root by (simp add: segment_length_def distance_to_def)
  have ang': "segment_angle (Segment (center ?D1) (center ?D2)) = 0"
    by (simp add: segment_angle_def atan2_def)
  have ip: "inf_partition ?D1 ?D2 = Segment (Coord 1 1000) (Coord 1 (- 1000))"
    using root by (simp add: inf_partition_def Let_def segment_length_def segment_angle_def
        distance_to_def atan2_def shifted_def INF_const_def)
  have "Coord 1 0 = Coord (1 + (1 / 2) * (1 - 1)) (1000 + (1 / 2) * (- 1000 - 1000))"
    by simp
  then have on_seg: "Coord 1 0 \<in> segment_points (inf_partition ?D1 ?D2)"
    unfolding ip segment_points_def mem_Collect_eq Segment.sel Coord.sel
    by (intro exI [of _ "1 / 2"]) simp
  have in_hull: "Coord 1 0 \<in> convex_hull ?pts"
    unfolding convex_hull_def mem_Collect_eq
    by (intro exI [of _ "[0, 0, 1, 0, 0, 0]"]) simp
  have "p = Coord 1 0" if l: "p \<in> perpendicular_line ?D1 ?D2" and h: "p \<in> convex_hull ?pts" for p
  proof -
    have xp: "x p = 1"
      using perpendicular_line_eval [OF len' ang', of 1 p] l by simp
    from h obtain ws where ws: "length ws = length ?pts" "\<forall>w\<in>set ws. 0 \<le> w" "sum_list ws = 1"
      "x p = sum_list (map2 (\<lambda>w q. w * x q) ws ?pts)"
      "y p = sum_list (map2 (\<lambda>w q. w * y q) ws ?pts)"
      unfolding convex_hull_def mem_Collect_eq by blast
    from ws(1) have "length ws = 6"
      by simp
    then obtain w1 w2 w3 w4 w5 w6 where l6: "ws = [w1, w2, w3, w4, w5, w6]"
      by (rule six_weights)
    from ws(2) have nn: "0 \<le> w1" "0 \<le> w2" "0 \<le> w3" "0 \<le> w4" "0 \<le> w5" "0 \<le> w6"
      unfolding l6 by simp_all
    from ws(3) have s: "w1 + w2 + w3 + w4 + w5 + w6 = 1"
      unfolding l6 by simp
    from ws(4) xp have ex: "w3 - w5 = 1"
      unfolding l6 by simp
    from ws(5) have ey: "y p = 5 * w1 - 5 * w2 + w4 - w6"
      unfolding l6 by simp
    from nn s ex have "w1 = 0" "w2 = 0" "w4 = 0" "w6 = 0"
      by linarith+
    with ey have "y p = 0"
      by simp
    with xp show ?thesis
      by (cases p) simp
  qed
  then have touch: "perpendicular_line ?D1 ?D2 \<inter> convex_hull ?pts \<subseteq> {Coord 1 0}"
    by blast
  have sub: "set [Coord 1 0] \<subseteq> segment_points (inf_partition ?D1 ?D2) \<inter> convex_hull ?pts"
    using on_seg in_hull by simp
  have one': "\<exists>p0. perpendicular_line ?D1 ?D2
                 \<inter> convex_hull ([Coord 0 5, Coord 0 (- 5)] @ concat (map ?PB [Circle (Coord 0 0) 1]))
               \<subseteq> {p0}"
    unfolding pts by (intro exI [of _ "Coord 1 0"]) (rule touch)
  have sub': "set (?touch ([Coord 0 5, Coord 0 (- 5)] @ concat (map ?PB [Circle (Coord 0 0) 1]))
                    (inf_partition ?D1 ?D2))
              \<subseteq> segment_points (inf_partition ?D1 ?D2)
                  \<inter> convex_hull ([Coord 0 5, Coord 0 (- 5)] @ concat (map ?PB [Circle (Coord 0 0) 1]))"
    unfolding pts using sub .
  from partition_failure [of "Coord 0 5" "Coord 0 (- 5)" ?PB "[Circle (Coord 0 0) 1]" ?touch ?D1 ?D2]
    many one' sub'
  have j: "calculate_partition_between_circles ?PB ?touch ?D1 ?D2 (Coord 0 5) (Coord 0 (- 5))
             [Circle (Coord 0 0) 1] = Inl IndexError"
    by simp
  have "distinct [Coord 1 0]"
    by simp
  with few v empty i sub touch j show ?thesis
    by blast
qed

theorem partition_failure_counterexample:
  "calculate_partition_between_circles
     (\<lambda>c. [Coord (x (center c) + radius c) (y (center c)),
            Coord (x (center c)) (y (center c) + radius c),
            Coord (x (center c) - radius c) (y (center c)),
            Coord (x (center c)) (y (center c) - radius c)])
     (\<lambda>points segment. [])
     (Circle (Coord 100 0) 1) (Circle (Coord 110 0) 1) (Coord 0 5) (Coord 0 (- 5))
     [Circle (Coord 0 0) 1] = Inl IndexError
   \<and> (Inl IndexError :: error + Segment) \<noteq> Inl DegeneratePartition"
  by (simp add: calculate_partition_between_circles_def)

text \<open>
  Claim C7 at a large environment: circles of radius 5 about \<open>(-10, 0)\<close> and \<open>(10, 0)\<close>, source
  \<open>(0, 5000)\<close> and target \<open>(0, -5000)\<close>. The perpendicular through the point between the circles is
  cut off at distance \<open>INF = 1000\<close>: it is the segment from \<open>(0, 1000)\<close> to \<open>(0, -1000)\<close>. Both ends
  lie strictly between source and target, so inside the convex hull, whose intersection with the
  segment is the segment itself; the partition returned ends at \<open>(0, 1000)\<close> and \<open>(0, -1000)\<close>, not
  on the boundary of the hull. (The two circles are listed, so the hull has its three points
  unless shapely gave no boundary coordinates for either circle.)
\<close>

theorem inf_partition_bounded:
  "inf_partition (Circle (Coord (- 10) 0) 5) (Circle (Coord 10 0) 5)
     = Segment (Coord 0 1000) (Coord 0 (- 1000))
   \<and> calculate_partition_between_circles polygon_boundary
        (\<lambda>points segment. [seg_a segment, seg_b segment])
        (Circle (Coord (- 10) 0) 5) (Circle (Coord 10 0) 5) (Coord 0 5000) (Coord 0 (- 5000))
        [Circle (Coord (- 10) 0) 5, Circle (Coord 10 0) 5]
     = (if polygon_boundary (Circle (Coord (- 10) 0) 5) = []
           \<and> polygon_boundary (Circle (Coord 10 0) 5) = []
        then Inl ValueError
        else Inr (Segment (Coord 0 1000) (Coord 0 (- 1000))))
   \<and> Coord 0 1000 = Coord (0.6 * x (Coord 0 5000) + 0.4 * x (Coord 0 (- 5000)))
                          (0.6 * y (Coord 0 5000) + 0.4 * y (Coord 0 (- 5000)))
   \<and> Coord 0 (- 1000) = Coord (0.4 * x (Coord 0 5000) + 0.6 * x (Coord 0 (- 5000)))
                              (0.4 * y (Coord 0 5000) + 0.6 * y (Coord 0 (- 5000)))"
proof -
  have "sqrt (400::real) = 20"
    by (rule real_sqrt_unique) simp_all
  then have ip: "inf_partition (Circle (Coord (- 10) 0) 5) (Circle (Coord 10 0) 5)
     = Segment (Coord 0 1000) (Coord 0 (- 1000))"
    by (simp add: inf_partition_def Let_def segment_length_def segment_angle_def distance_to_def
        atan2_def shifted_def INF_const_def)
  have len: "length ([Coord 0 5000, Coord 0 (- 5000)]
               @ concat (map polygon_boundary [Circle (Coord (- 10) 0) 5, Circle (Coord 10 0) 5])) < 3
             \<longleftrightarrow> polygon_boundary (Circle (Coord (- 10) 0) 5) = []
                 \<and> polygon_boundary (Circle (Coord 10 0) 5) = []"
    by (cases "polygon_boundary (Circle (Coord (- 10) 0) 5)";
        cases "polygon_boundary (Circle (Coord 10 0) 5)") simp_all
  show ?thesis
    unfolding calculate_partition_between_circles_def Let_def ip len by simp
qed

end
